theory Spec2Isabelle
  imports Main
begin

section \<open>Secret helpers of the operator: \<^verbatim>\<open>pkg/secret/secret.go\<close>\<close>

text \<open>
  The module attaches secret volumes to pods, mounts them into containers and scans
  annotations for the secrets to mount. Its functions mutate a pod or a container through
  a pointer; here each takes the descriptor the pointer refers to and returns the
  descriptor as it is after the call. Go strings are byte sequences and are modelled by
  \<^typ>\<open>string\<close>; Go slices are lists, \<^verbatim>\<open>append(s, x)\<close> being \<open>s @ [x]\<close> (also for the nil
  slice, which is the empty list).
\<close>

subsection \<open>The descriptors of the platform schema\<close>

text \<open>
  The types of \<^verbatim>\<open>k8s.io/api/core/v1\<close> are declared outside the repository. The records
  below carry the fields that the module names. A descriptor built by the module leaves
  every other field at its zero value. A descriptor received from the caller is a record
  scheme: its extension part stands for all the fields that the module never names (the
  metadata and status of a pod, the containers of a pod spec, the name and image of a
  container, and so on).
\<close>

record SecretVolumeSource =
  SecretName :: string

record VolumeSource =
  Secret :: "SecretVolumeSource option"

record Volume =
  Name :: string
  VolumeSource :: VolumeSource

record VolumeMount =
  Name :: string
  ReadOnly :: bool
  MountPath :: string

record EnvVar =
  Name :: string
  Value :: string

record PodSpec =
  Volumes :: "Volume list"

record 'a Pod =
  Spec :: "'a PodSpec_scheme"

record Container =
  VolumeMounts :: "VolumeMount list"
  Env :: "EnvVar list"

subsection \<open>Constants\<close>

definition GoogleApplicationCredentialsEnvVar :: string where
  "GoogleApplicationCredentialsEnvVar = ''GOOGLE_APPLICATION_CREDENTIALS''"

definition ServiceAccountJSONKeyFileName :: string where
  "ServiceAccountJSONKeyFileName = ''key.json''"

definition ServiceAccountSecretVolumeName :: string where
  "ServiceAccountSecretVolumeName = ''gcp-service-account-secret-volume''"

subsection \<open>Library functions used by the module\<close>

text \<open>
  \<^verbatim>\<open>strings.HasPrefix(s, prefix)\<close> tests whether \<open>s\<close> begins with \<open>prefix\<close>, and
  \<^verbatim>\<open>strings.TrimPrefix(s, prefix)\<close> returns \<open>s\<close> without the leading \<open>prefix\<close>, or \<open>s\<close>
  itself when it does not begin with it.
\<close>

definition HasPrefix :: "string \<Rightarrow> string \<Rightarrow> bool" where
  "HasPrefix s pre = (length pre \<le> length s \<and> take (length pre) s = pre)"

definition TrimPrefix :: "string \<Rightarrow> string \<Rightarrow> string" where
  "TrimPrefix s pre = (if HasPrefix s pre then drop (length pre) s else s)"

text \<open>\<^verbatim>\<open>fmt.Sprintf("%s/%s", a, b)\<close> on two strings.\<close>

definition Sprintf_s_slash_s :: "string \<Rightarrow> string \<Rightarrow> string" where
  "Sprintf_s_slash_s a b = a @ ''/'' @ b"

subsection \<open>Attaching volumes and mounts\<close>

definition AddSecretVolumeToPod ::
  "string \<Rightarrow> string \<Rightarrow> ('a, 'b) Pod_scheme \<Rightarrow> ('a, 'b) Pod_scheme" where
  "AddSecretVolumeToPod secretVolumeName secretName pod =
     (let volume = \<lparr>Volume.Name = secretVolumeName,
                    VolumeSource = \<lparr>Secret = Some \<lparr>SecretName = secretName\<rparr>\<rparr>\<rparr>
      in pod\<lparr>Spec := (Spec pod)\<lparr>Volumes := Volumes (Spec pod) @ [volume]\<rparr>\<rparr>)"

definition MountSecretToContainer ::
  "string \<Rightarrow> string \<Rightarrow> 'a Container_scheme \<Rightarrow> 'a Container_scheme" where
  "MountSecretToContainer volumeName mountPath container =
     (let volumeMount = \<lparr>VolumeMount.Name = volumeName, ReadOnly = True,
                         MountPath = mountPath\<rparr>
      in container\<lparr>VolumeMounts := VolumeMounts container @ [volumeMount]\<rparr>)"

definition MountServiceAccountSecretToContainer ::
  "string \<Rightarrow> 'a Container_scheme \<Rightarrow> 'a Container_scheme" where
  "MountServiceAccountSecretToContainer mountPath container =
     (let container1 = MountSecretToContainer ServiceAccountSecretVolumeName mountPath container;
          jsonKeyFilePath = Sprintf_s_slash_s mountPath ServiceAccountJSONKeyFileName;
          appCredentialEnvVar = \<lparr>EnvVar.Name = GoogleApplicationCredentialsEnvVar,
                                 Value = jsonKeyFilePath\<rparr>
      in container1\<lparr>Env := Env container1 @ [appCredentialEnvVar]\<rparr>)"

subsection \<open>Annotation mappings\<close>

text \<open>
  A Go \<^verbatim>\<open>map[string]string\<close> is modelled by the list of its entries, in the order in which
  a \<^verbatim>\<open>range\<close> loop of the call at hand visits them. Go fixes no such order, so a property
  of a mapping is a property of every list of its entries. The keys of a mapping are
  distinct (\<open>valid_map\<close>); two lists with distinct keys stand for the same mapping exactly
  when they have the same set of entries. The nil map is the empty list.
\<close>

type_synonym annotations = "(string \<times> string) list"

definition valid_map :: "annotations \<Rightarrow> bool" where
  "valid_map annotations = distinct (map fst annotations)"

definition keys :: "annotations \<Rightarrow> string list" where
  "keys annotations = map fst annotations"

text \<open>The index expression \<^verbatim>\<open>annotations[k]\<close>: the zero value for a missing key.\<close>

definition index :: "annotations \<Rightarrow> string \<Rightarrow> string" where
  "index annotations k = (case map_of annotations k of None \<Rightarrow> [] | Some v \<Rightarrow> v)"

subsection \<open>Scanning annotations\<close>

text \<open>
  The two prefixes are constants of the package \<^verbatim>\<open>config\<close>, which is not part of the
  sources at hand: each scanner takes its prefix as the first argument. The loops run
  over the keys of the mapping; the first one returns from inside the loop.
\<close>

fun FindGCPServiceAccountSecret_range ::
  "string \<Rightarrow> annotations \<Rightarrow> string list \<Rightarrow> string \<times> string \<times> bool" where
  "FindGCPServiceAccountSecret_range prefix annotations [] = ([], [], False)"
| "FindGCPServiceAccountSecret_range prefix annotations (annotation # rest) =
     (if HasPrefix annotation prefix then
        (let name = TrimPrefix annotation prefix;
             path = index annotations annotation
         in (name, path, True))
      else FindGCPServiceAccountSecret_range prefix annotations rest)"

definition FindGCPServiceAccountSecret ::
  "string \<Rightarrow> annotations \<Rightarrow> string \<times> string \<times> bool" where
  "FindGCPServiceAccountSecret GCPServiceAccountSecretAnnotationPrefix annotations =
     FindGCPServiceAccountSecret_range GCPServiceAccountSecretAnnotationPrefix annotations
       (keys annotations)"

text \<open>
  The result of the second scanner is built by assignments \<^verbatim>\<open>secrets[name] = path\<close> and is
  never iterated: it is a map \<open>string \<rightharpoonup> string\<close>, starting from the empty one.
\<close>

fun FindGeneralSecrets_range ::
  "string \<Rightarrow> annotations \<Rightarrow> string list \<Rightarrow> (string \<rightharpoonup> string) \<Rightarrow> (string \<rightharpoonup> string)" where
  "FindGeneralSecrets_range prefix annotations [] secrets = secrets"
| "FindGeneralSecrets_range prefix annotations (annotation # rest) secrets =
     (if HasPrefix annotation prefix then
        (let name = TrimPrefix annotation prefix;
             path = index annotations annotation
         in FindGeneralSecrets_range prefix annotations rest (secrets(name \<mapsto> path)))
      else FindGeneralSecrets_range prefix annotations rest secrets)"

definition FindGeneralSecrets :: "string \<Rightarrow> annotations \<Rightarrow> (string \<rightharpoonup> string)" where
  "FindGeneralSecrets GeneralSecretsAnnotationPrefix annotations =
     FindGeneralSecrets_range GeneralSecretsAnnotationPrefix annotations
       (keys annotations) Map.empty"

section \<open>Properties\<close>

subsection \<open>Prefixes and lookups\<close>

lemma HasPrefix_iff: "HasPrefix s pre = (\<exists>t. s = pre @ t)"
  unfolding HasPrefix_def
  by (metis append_eq_conv_conj append_take_drop_id length_append le_add1)

lemma HasPrefix_append: "HasPrefix (pre @ t) pre"
  by (simp add: HasPrefix_def)

lemma TrimPrefix_append: "TrimPrefix (pre @ t) pre = t"
  by (simp add: TrimPrefix_def HasPrefix_def)

lemma index_entry: "valid_map anns \<Longrightarrow> (k, v) \<in> set anns \<Longrightarrow> index anns k = v"
  by (simp add: index_def valid_map_def)

lemma keys_entry: "(k, v) \<in> set anns \<Longrightarrow> k \<in> set (keys anns)"
  by (force simp: keys_def)

subsection \<open>The mutations as record updates\<close>

lemma AddSecretVolumeToPod_eq:
  "AddSecretVolumeToPod secretVolumeName secretName pod =
     pod\<lparr>Spec := (Spec pod)\<lparr>Volumes := Volumes (Spec pod) @
       [\<lparr>Volume.Name = secretVolumeName,
         VolumeSource = \<lparr>Secret = Some \<lparr>SecretName = secretName\<rparr>\<rparr>\<rparr>]\<rparr>\<rparr>"
  by (simp add: AddSecretVolumeToPod_def)

lemma MountSecretToContainer_eq:
  "MountSecretToContainer volumeName mountPath container =
     container\<lparr>VolumeMounts := VolumeMounts container @
       [\<lparr>VolumeMount.Name = volumeName, ReadOnly = True, MountPath = mountPath\<rparr>]\<rparr>"
  by (simp add: MountSecretToContainer_def)

lemma MountServiceAccountSecretToContainer_eq:
  "MountServiceAccountSecretToContainer mountPath container =
     container\<lparr>VolumeMounts := VolumeMounts container @
         [\<lparr>VolumeMount.Name = ServiceAccountSecretVolumeName, ReadOnly = True,
           MountPath = mountPath\<rparr>],
       Env := Env container @
         [\<lparr>EnvVar.Name = GoogleApplicationCredentialsEnvVar,
           Value = mountPath @ ''/'' @ ServiceAccountJSONKeyFileName\<rparr>]\<rparr>"
  by (simp add: MountServiceAccountSecretToContainer_def MountSecretToContainer_eq
      Sprintf_s_slash_s_def)

subsection \<open>The single-secret scanner\<close>

text \<open>
  The loop of the scanner stops at the first key of the iteration that bears the prefix:
  it is \<^const>\<open>find\<close> over the keys.
\<close>

lemma GCP_range_find:
  "FindGCPServiceAccountSecret_range P anns ks =
     (case find (\<lambda>k. HasPrefix k P) ks of
        None \<Rightarrow> ([], [], False)
      | Some k \<Rightarrow> (TrimPrefix k P, index anns k, True))"
  by (induction ks) simp_all

lemma GCP_not_found:
  "(\<forall>k \<in> set (keys anns). \<not> HasPrefix k P) \<Longrightarrow>
   FindGCPServiceAccountSecret P anns = ([], [], False)"
  by (simp add: FindGCPServiceAccountSecret_def GCP_range_find find_None_iff2 [symmetric] split: option.splits)
     (metis find_None_iff)

lemma GCP_found:
  assumes "\<exists>k \<in> set (keys anns). HasPrefix k P"
  shows "\<exists>k \<in> set (keys anns). HasPrefix k P \<and>
           FindGCPServiceAccountSecret P anns = (TrimPrefix k P, index anns k, True)"
proof -
  from assms obtain k where k: "find (\<lambda>k. HasPrefix k P) (keys anns) = Some k"
    by (cases "find (\<lambda>k. HasPrefix k P) (keys anns)") (auto simp: find_None_iff)
  then have "k \<in> set (keys anns)" and "HasPrefix k P"
    by (auto simp: find_Some_iff)
  moreover from k have "FindGCPServiceAccountSecret P anns = (TrimPrefix k P, index anns k, True)"
    by (simp add: FindGCPServiceAccountSecret_def GCP_range_find)
  ultimately show ?thesis by blast
qed

lemma GCP_head:
  "HasPrefix k P \<Longrightarrow>
   FindGCPServiceAccountSecret P ((k, v) # rest) = (TrimPrefix k P, v, True)"
  by (simp add: FindGCPServiceAccountSecret_def keys_def index_def)

text \<open>
  Two iteration orders of one and the same mapping with two matching keys: the scanner
  returns the key that the iteration meets first.
\<close>

lemma GCP_order_example:
  "FindGCPServiceAccountSecret P [(P @ ''k1'', ''/m1''), (P @ ''k2'', ''/m2'')] = (''k1'', ''/m1'', True)"
  "FindGCPServiceAccountSecret P [(P @ ''k2'', ''/m2''), (P @ ''k1'', ''/m1'')] = (''k2'', ''/m2'', True)"
  by (simp_all add: FindGCPServiceAccountSecret_def keys_def HasPrefix_append TrimPrefix_append index_def)

text \<open>Any entry of a mapping can be the first one of an iteration.\<close>

lemma valid_map_move_front:
  assumes "valid_map anns" and "(k, v) \<in> set anns"
  shows "valid_map ((k, v) # remove1 (k, v) anns) \<and> set ((k, v) # remove1 (k, v) anns) = set anns"
proof -
  from assms(1) have d: "distinct anns" and i: "inj_on fst (set anns)"
    by (auto simp: valid_map_def distinct_map)
  from d have s: "set (remove1 (k, v) anns) = set anns - {(k, v)}" by simp
  have "k \<notin> fst ` set (remove1 (k, v) anns)"
  proof
    assume "k \<in> fst ` set (remove1 (k, v) anns)"
    then obtain w where w: "(k, w) \<in> set anns - {(k, v)}" using s by force
    then have "(k, w) \<in> set anns" and "w \<noteq> v" by simp_all
    moreover from \<open>(k, w) \<in> set anns\<close> assms(2) have "(k, w) = (k, v)"
      using inj_onD [OF i, of "(k, w)" "(k, v)"] by simp
    ultimately show False by simp
  qed
  moreover have "distinct (map fst (remove1 (k, v) anns))"
    using d i s by (simp add: distinct_map inj_on_diff)
  moreover have "set ((k, v) # remove1 (k, v) anns) = set anns"
    using s assms(2) by auto
  ultimately show ?thesis by (simp add: valid_map_def)
qed

subsection \<open>The multi-secret scanner\<close>

text \<open>
  After the loop over the keys \<open>ks\<close>, the name \<open>n\<close> is bound exactly when \<open>prefix @ n\<close> is
  among \<open>ks\<close>, whatever the order of \<open>ks\<close>; other names keep what the accumulator held.
\<close>

lemma General_range_apply:
  "FindGeneralSecrets_range P anns ks secrets n =
     (if P @ n \<in> set ks then Some (index anns (P @ n)) else secrets n)"
proof (induction ks arbitrary: secrets)
  case Nil
  show ?case by simp
next
  case (Cons k ks)
  show ?case
  proof (cases "HasPrefix k P")
    case True
    then obtain t where k: "k = P @ t" by (auto simp: HasPrefix_iff)
    show ?thesis using True by (simp add: Cons.IH k TrimPrefix_append)
  next
    case False
    then have "k \<noteq> P @ n" by (auto simp: HasPrefix_iff)
    with False show ?thesis by (simp add: Cons.IH)
  qed
qed

lemma General_map_of: "FindGeneralSecrets P anns = (\<lambda>n. map_of anns (P @ n))"
proof
  fix n
  show "FindGeneralSecrets P anns n = map_of anns (P @ n)"
  proof (cases "map_of anns (P @ n)")
    case None
    then have "P @ n \<notin> set (keys anns)" by (simp add: keys_def map_of_eq_None_iff)
    with None show ?thesis by (simp add: FindGeneralSecrets_def General_range_apply)
  next
    case (Some v)
    then have "P @ n \<in> set (keys anns)" 
      by (metis keys_def map_of_eq_None_iff option.distinct(1) set_map)
    with Some show ?thesis by (simp add: FindGeneralSecrets_def General_range_apply index_def)
  qed
qed

lemma General_entry:
  assumes "valid_map anns" and "(k, v) \<in> set anns" and "HasPrefix k P"
  shows "FindGeneralSecrets P anns (TrimPrefix k P) = Some v"
proof -
  from assms(3) obtain t where k: "k = P @ t" by (auto simp: HasPrefix_iff)
  from assms(1,2) have "map_of anns k = Some v" by (simp add: valid_map_def)
  then show ?thesis by (simp add: General_map_of k TrimPrefix_append)
qed

lemma General_only:
  assumes "FindGeneralSecrets P anns n = Some v"
  shows "(P @ n, v) \<in> set anns"
  using assms by (simp add: General_map_of map_of_SomeD)

lemma General_order:
  assumes "valid_map anns" and "valid_map anns'" and "set anns' = set anns"
  shows "FindGeneralSecrets P anns' = FindGeneralSecrets P anns"
proof -
  from assms have "map_of anns' = map_of anns"
    by (simp add: valid_map_def map_of_inject_set)
  then show ?thesis by (simp add: General_map_of)
qed

lemma General_example:
  "FindGeneralSecrets P [(P @ ''a'', ''/m1''), (P @ ''b'', ''/m2'')] = [''a'' \<mapsto> ''/m1'', ''b'' \<mapsto> ''/m2'']"
  "FindGeneralSecrets P [(P @ ''b'', ''/m2''), (P @ ''a'', ''/m1'')] = [''a'' \<mapsto> ''/m1'', ''b'' \<mapsto> ''/m2'']"
  by (auto simp: General_map_of fun_eq_iff)

lemma Trim_inj: "inj_on (\<lambda>k. TrimPrefix k P) {k \<in> K. HasPrefix k P}"
  by (rule inj_onI) (auto simp: HasPrefix_iff TrimPrefix_append)

lemma General_dom:
  "dom (FindGeneralSecrets P anns) = (\<lambda>k. TrimPrefix k P) ` {k \<in> set (keys anns). HasPrefix k P}"
proof -
  have "dom (FindGeneralSecrets P anns) = {n. P @ n \<in> set (keys anns)}"
    by (auto simp: General_map_of keys_def dom_def map_of_eq_None_iff)
  also have "\<dots> = (\<lambda>k. TrimPrefix k P) ` {k \<in> set (keys anns). HasPrefix k P}"
  proof (rule set_eqI)
    fix n
    show "n \<in> {n. P @ n \<in> set (keys anns)} \<longleftrightarrow>
          n \<in> (\<lambda>k. TrimPrefix k P) ` {k \<in> set (keys anns). HasPrefix k P}"
    proof
      assume "n \<in> {n. P @ n \<in> set (keys anns)}"
      then have "P @ n \<in> {k \<in> set (keys anns). HasPrefix k P}"
        by (simp add: HasPrefix_append)
      then have "TrimPrefix (P @ n) P \<in> (\<lambda>k. TrimPrefix k P) ` {k \<in> set (keys anns). HasPrefix k P}"
        by (rule imageI)
      then show "n \<in> (\<lambda>k. TrimPrefix k P) ` {k \<in> set (keys anns). HasPrefix k P}"
        by (simp add: TrimPrefix_append)
    next
      assume "n \<in> (\<lambda>k. TrimPrefix k P) ` {k \<in> set (keys anns). HasPrefix k P}"
      then show "n \<in> {n. P @ n \<in> set (keys anns)}"
        by (auto simp: HasPrefix_iff TrimPrefix_append)
    qed
  qed
  finally show ?thesis .
qed

section \<open>The claims\<close>

text \<open>
  \<^bold>\<open>C1\<close>. For every base mount path and every container, the credential wiring does two
  things, in this order: it mounts the volume \<open>gcp-service-account-secret-volume\<close> read-only
  at the base path (the call of the mount attacher), and it then appends the variable
  \<open>GOOGLE_APPLICATION_CREDENTIALS\<close> whose value is the base path, \<open>/\<close> and \<open>key.json\<close>. The
  container is otherwise the one received. On a container with no mounts and no variables
  and the base path \<open>/etc/gcp\<close> the result has the one mount at \<open>/etc/gcp\<close> and the one
  variable with value \<open>/etc/gcp/key.json\<close>.
\<close>

theorem MountServiceAccountSecretToContainer_two_effects:
  "MountServiceAccountSecretToContainer mountPath container =
     (MountSecretToContainer ''gcp-service-account-secret-volume'' mountPath container)
       \<lparr>Env := Env container @
          [\<lparr>EnvVar.Name = ''GOOGLE_APPLICATION_CREDENTIALS'',
            Value = mountPath @ ''/'' @ ''key.json''\<rparr>]\<rparr>
   \<and> MountServiceAccountSecretToContainer mountPath container =
       container\<lparr>VolumeMounts := VolumeMounts container @
           [\<lparr>VolumeMount.Name = ''gcp-service-account-secret-volume'', ReadOnly = True,
             MountPath = mountPath\<rparr>],
         Env := Env container @
           [\<lparr>EnvVar.Name = ''GOOGLE_APPLICATION_CREDENTIALS'',
             Value = mountPath @ ''/'' @ ''key.json''\<rparr>]\<rparr>
   \<and> MountServiceAccountSecretToContainer ''/etc/gcp''
         \<lparr>VolumeMounts = [], Env = [], \<dots> = rest\<rparr> =
       \<lparr>VolumeMounts =
           [\<lparr>VolumeMount.Name = ''gcp-service-account-secret-volume'', ReadOnly = True,
             MountPath = ''/etc/gcp''\<rparr>],
         Env = [\<lparr>EnvVar.Name = ''GOOGLE_APPLICATION_CREDENTIALS'',
                 Value = ''/etc/gcp/key.json''\<rparr>],
         \<dots> = rest\<rparr>"
  by (simp add: MountServiceAccountSecretToContainer_eq MountSecretToContainer_eq
      ServiceAccountSecretVolumeName_def GoogleApplicationCredentialsEnvVar_def
      ServiceAccountJSONKeyFileName_def)

text \<open>
  \<^bold>\<open>C2\<close>. When the mapping has exactly one key bearing the prefix, namely the prefix
  followed by \<open>s\<close>, and maps it to \<open>v\<close>, the single-secret scanner returns \<open>(s, v, true)\<close>, in
  whatever order the keys are visited.
\<close>

theorem FindGCPServiceAccountSecret_single:
  assumes "valid_map annotations"
    and "(prefix @ s, v) \<in> set annotations"
    and "\<forall>k \<in> set (keys annotations). HasPrefix k prefix \<longrightarrow> k = prefix @ s"
  shows "FindGCPServiceAccountSecret prefix annotations = (s, v, True)"
proof -
  have "\<exists>k \<in> set (keys annotations). HasPrefix k prefix"
    using assms(2) HasPrefix_append keys_entry by blast
  from GCP_found [OF this] obtain k where
    "k \<in> set (keys annotations)" "HasPrefix k prefix"
    "FindGCPServiceAccountSecret prefix annotations = (TrimPrefix k prefix, index annotations k, True)"
    by blast
  moreover from this assms(3) have "k = prefix @ s" by blast
  ultimately show ?thesis
    using assms(1,2) by (simp add: TrimPrefix_append index_entry)
qed

theorem FindGCPServiceAccountSecret_single_witness:
  "valid_map [(''x/role'', ''driver''), (''sa.key1'', ''/mnt/secrets''), (''sa'', ''/no'')]
   \<and> FindGCPServiceAccountSecret ''sa.''
        [(''x/role'', ''driver''), (''sa.key1'', ''/mnt/secrets''), (''sa'', ''/no'')]
       = (''key1'', ''/mnt/secrets'', True)"
proof -
  let ?a = "[(''x/role'', ''driver''), (''sa.key1'', ''/mnt/secrets''), (''sa'', ''/no'')]"
  have h1: "valid_map ?a" by (simp add: valid_map_def)
  have h2: "(''sa.'' @ ''key1'', ''/mnt/secrets'') \<in> set ?a" by simp
  have h3: "\<forall>k \<in> set (keys ?a). HasPrefix k ''sa.'' \<longrightarrow> k = ''sa.'' @ ''key1''"
    by (simp add: keys_def HasPrefix_def)
  from FindGCPServiceAccountSecret_single [OF h1 h2 h3] h1 show ?thesis by simp
qed

text \<open>
  \<^bold>\<open>C3\<close>. For every mapping, the multi-secret scanner binds the suffix of every key that
  bears the prefix to the value of that key, and binds nothing else: a binding of \<open>name\<close> to
  \<open>path\<close> in the result comes from the entry of the key \<open>prefix @ name\<close> with value \<open>path\<close>. The
  result is the same for every list of the same entries, that is, for every order of
  iteration. The mapping with the two keys \<open>prefix @ a\<close> and \<open>prefix @ b\<close>, in either order,
  gives exactly the bindings of \<open>a\<close> to \<open>/m1\<close> and of \<open>b\<close> to \<open>/m2\<close>.
\<close>

theorem FindGeneralSecrets_exact:
  assumes "valid_map annotations"
  shows "(\<forall>(k, v) \<in> set annotations. HasPrefix k prefix \<longrightarrow>
            FindGeneralSecrets prefix annotations (TrimPrefix k prefix) = Some v)
       \<and> (\<forall>name path. FindGeneralSecrets prefix annotations name = Some path \<longrightarrow>
            (prefix @ name, path) \<in> set annotations)
       \<and> (\<forall>annotations'. valid_map annotations' \<and> set annotations' = set annotations \<longrightarrow>
            FindGeneralSecrets prefix annotations' = FindGeneralSecrets prefix annotations)
       \<and> FindGeneralSecrets prefix [(prefix @ ''a'', ''/m1''), (prefix @ ''b'', ''/m2'')]
            = [''a'' \<mapsto> ''/m1'', ''b'' \<mapsto> ''/m2'']
       \<and> FindGeneralSecrets prefix [(prefix @ ''b'', ''/m2''), (prefix @ ''a'', ''/m1'')]
            = [''a'' \<mapsto> ''/m1'', ''b'' \<mapsto> ''/m2'']"
proof (intro conjI)
  show "\<forall>(k, v) \<in> set annotations. HasPrefix k prefix \<longrightarrow>
          FindGeneralSecrets prefix annotations (TrimPrefix k prefix) = Some v"
    using General_entry [OF assms] by blast
  show "\<forall>name path. FindGeneralSecrets prefix annotations name = Some path \<longrightarrow>
          (prefix @ name, path) \<in> set annotations"
    using General_only by blast
  show "\<forall>annotations'. valid_map annotations' \<and> set annotations' = set annotations \<longrightarrow>
          FindGeneralSecrets prefix annotations' = FindGeneralSecrets prefix annotations"
    using General_order [OF assms] by blast
qed (rule General_example)+

theorem FindGeneralSecrets_exact_witness:
  "valid_map [(''x/role'', ''driver''), (''s.a'', ''/m1''), (''s.b'', ''/m2'')]
   \<and> FindGeneralSecrets ''s.'' [(''x/role'', ''driver''), (''s.a'', ''/m1''), (''s.b'', ''/m2'')] ''a''
       = Some ''/m1''
   \<and> FindGeneralSecrets ''s.'' [(''x/role'', ''driver''), (''s.a'', ''/m1''), (''s.b'', ''/m2'')] ''b''
       = Some ''/m2''
   \<and> FindGeneralSecrets ''s.'' [(''x/role'', ''driver''), (''s.a'', ''/m1''), (''s.b'', ''/m2'')] ''role''
       = None
   \<and> FindGeneralSecrets ''s.'' [(''s.b'', ''/m2''), (''x/role'', ''driver''), (''s.a'', ''/m1'')]
       = FindGeneralSecrets ''s.'' [(''x/role'', ''driver''), (''s.a'', ''/m1''), (''s.b'', ''/m2'')]"
proof -
  let ?a = "[(''x/role'', ''driver''), (''s.a'', ''/m1''), (''s.b'', ''/m2'')]"
  have h: "valid_map ?a" by (simp add: valid_map_def)
  have h': "valid_map [(''s.b'', ''/m2''), (''x/role'', ''driver''), (''s.a'', ''/m1'')]"
    by (simp add: valid_map_def)
  note t = FindGeneralSecrets_exact [OF h, of "''s.''"]
  have p: "HasPrefix ''s.a'' ''s.''" "HasPrefix ''s.b'' ''s.''"
    "TrimPrefix ''s.a'' ''s.'' = ''a''" "TrimPrefix ''s.b'' ''s.'' = ''b''"
    by (simp_all add: HasPrefix_def TrimPrefix_def)
  from t p have "FindGeneralSecrets ''s.'' ?a ''a'' = Some ''/m1''" by fastforce
  moreover from t p have "FindGeneralSecrets ''s.'' ?a ''b'' = Some ''/m2''" by fastforce
  moreover have "FindGeneralSecrets ''s.'' ?a ''role'' = None"
  proof (cases "FindGeneralSecrets ''s.'' ?a ''role''")
    case (Some v)
    with t have "(''s.'' @ ''role'', v) \<in> set ?a" by blast
    then show ?thesis by simp
  qed simp
  moreover from t h' have
    "FindGeneralSecrets ''s.'' [(''s.b'', ''/m2''), (''x/role'', ''driver''), (''s.a'', ''/m1'')]
       = FindGeneralSecrets ''s.'' ?a"
    by auto
  ultimately show ?thesis using h by blast
qed

text \<open>
  \<^bold>\<open>C4\<close>. For every pod, volume name and secret name, the volume attacher appends exactly
  one volume to the end of the volumes of the pod; it bears the given name and refers to
  the given secret. Attaching \<open>v1\<close> for the secret \<open>s1\<close> and then \<open>v2\<close> for \<open>s2\<close> to a pod with
  no volumes gives exactly these two volumes, in the order of the calls.
\<close>

theorem AddSecretVolumeToPod_appends_one:
  "(\<exists>volume. Volumes (Spec (AddSecretVolumeToPod secretVolumeName secretName pod))
        = Volumes (Spec pod) @ [volume]
      \<and> Volume.Name volume = secretVolumeName
      \<and> Secret (VolumeSource volume) = Some \<lparr>SecretName = secretName\<rparr>)
   \<and> length (Volumes (Spec (AddSecretVolumeToPod secretVolumeName secretName pod)))
       = Suc (length (Volumes (Spec pod)))
   \<and> Volumes (Spec (AddSecretVolumeToPod ''v2'' ''s2''
         (AddSecretVolumeToPod ''v1'' ''s1'' \<lparr>Spec = \<lparr>Volumes = [], \<dots> = rest\<rparr>, \<dots> = rest'\<rparr>)))
       = [\<lparr>Volume.Name = ''v1'', VolumeSource = \<lparr>Secret = Some \<lparr>SecretName = ''s1''\<rparr>\<rparr>\<rparr>,
          \<lparr>Volume.Name = ''v2'', VolumeSource = \<lparr>Secret = Some \<lparr>SecretName = ''s2''\<rparr>\<rparr>\<rparr>]"
  by (simp add: AddSecretVolumeToPod_eq)

text \<open>
  \<^bold>\<open>C5\<close>. The mount that the mount attacher appends is read-only, for every volume name,
  mount path and container; so is the mount that the credential wiring appends.
\<close>

theorem mounts_read_only:
  "(\<exists>m. VolumeMounts (MountSecretToContainer volumeName mountPath container)
        = VolumeMounts container @ [m]
      \<and> VolumeMount.Name m = volumeName \<and> MountPath m = mountPath \<and> ReadOnly m = True)
   \<and> (\<exists>m. VolumeMounts (MountServiceAccountSecretToContainer mountPath container)
        = VolumeMounts container @ [m]
      \<and> ReadOnly m = True)"
  by (simp add: MountSecretToContainer_eq MountServiceAccountSecretToContainer_eq)

text \<open>
  \<^bold>\<open>C6\<close>. When no key of the mapping bears the prefix, the single-secret scanner returns
  two empty strings and the flag \<open>false\<close>. The flag alone tells this case: it is \<open>false\<close>
  exactly when no key bears the prefix (a key equal to the prefix and mapped to the empty
  string gives two empty strings too, with the flag \<open>true\<close>). The scanner is a total
  function into plain values; no function of the module has an error result.
\<close>

theorem FindGCPServiceAccountSecret_none:
  "((\<forall>k \<in> set (keys annotations). \<not> HasPrefix k prefix) \<longrightarrow>
      FindGCPServiceAccountSecret prefix annotations = ([], [], False))
   \<and> (snd (snd (FindGCPServiceAccountSecret prefix annotations)) = False
        \<longleftrightarrow> (\<forall>k \<in> set (keys annotations). \<not> HasPrefix k prefix))
   \<and> FindGCPServiceAccountSecret prefix [(prefix, [])] = ([], [], True)"
proof -
  have "FindGCPServiceAccountSecret prefix [(prefix, [])] = ([], [], True)"
    using GCP_head [of prefix prefix "[]" "[]"] by (simp add: HasPrefix_def TrimPrefix_def)
  moreover have
    "((\<forall>k \<in> set (keys annotations). \<not> HasPrefix k prefix) \<longrightarrow>
        FindGCPServiceAccountSecret prefix annotations = ([], [], False))
     \<and> (snd (snd (FindGCPServiceAccountSecret prefix annotations)) = False
          \<longleftrightarrow> (\<forall>k \<in> set (keys annotations). \<not> HasPrefix k prefix))"
  proof (cases "\<exists>k \<in> set (keys annotations). HasPrefix k prefix")
    case True
    from GCP_found [OF True] show ?thesis by auto
  next
    case False
    then have "\<forall>k \<in> set (keys annotations). \<not> HasPrefix k prefix" by blast
    from GCP_not_found [OF this] this show ?thesis by simp
  qed
  ultimately show ?thesis by simp
qed

theorem FindGCPServiceAccountSecret_none_witness:
  "filter (\<lambda>k. HasPrefix k ''sa.'') (keys [(''x/role'', ''driver''), (''sa'', ''/no'')]) = []
   \<and> FindGCPServiceAccountSecret ''sa.'' [(''x/role'', ''driver''), (''sa'', ''/no'')]
       = ([], [], False)"
proof -
  have h: "\<forall>k \<in> set (keys [(''x/role'', ''driver''), (''sa'', ''/no'')]). \<not> HasPrefix k ''sa.''"
    by (simp add: keys_def HasPrefix_def)
  then have "filter (\<lambda>k. HasPrefix k ''sa.'') (keys [(''x/role'', ''driver''), (''sa'', ''/no'')]) = []"
    by (simp only: filter_empty_conv)
  moreover
  from FindGCPServiceAccountSecret_none [of "[(''x/role'', ''driver''), (''sa'', ''/no'')]" "''sa.''"] h
  have "FindGCPServiceAccountSecret ''sa.'' [(''x/role'', ''driver''), (''sa'', ''/no'')]
       = ([], [], False)"
    by blast
  ultimately show ?thesis by (rule conjI)
qed

text \<open>
  \<^bold>\<open>C7\<close>. When at least one key of the mapping bears the prefix, the single-secret scanner
  returns the flag \<open>true\<close> together with the suffix and the value of some entry whose key
  bears the prefix. Which entry is not fixed by the mapping: each entry whose key bears
  the prefix is the one returned under some order of iteration of the same mapping.
\<close>

theorem FindGCPServiceAccountSecret_some:
  assumes "valid_map annotations"
    and "\<exists>k \<in> set (keys annotations). HasPrefix k prefix"
  shows "(\<exists>k v. (k, v) \<in> set annotations \<and> HasPrefix k prefix \<and>
            FindGCPServiceAccountSecret prefix annotations = (TrimPrefix k prefix, v, True))
       \<and> (\<forall>k v. (k, v) \<in> set annotations \<and> HasPrefix k prefix \<longrightarrow>
            (\<exists>annotations'. valid_map annotations' \<and> set annotations' = set annotations \<and>
               FindGCPServiceAccountSecret prefix annotations' = (TrimPrefix k prefix, v, True)))"
proof
  from GCP_found [OF assms(2)] obtain k where k:
    "k \<in> set (keys annotations)" "HasPrefix k prefix"
    "FindGCPServiceAccountSecret prefix annotations = (TrimPrefix k prefix, index annotations k, True)"
    by blast
  from k(1) obtain v where v: "(k, v) \<in> set annotations" by (auto simp: keys_def)
  with assms(1) have "index annotations k = v" by (rule index_entry)
  with k v show "\<exists>k v. (k, v) \<in> set annotations \<and> HasPrefix k prefix \<and>
      FindGCPServiceAccountSecret prefix annotations = (TrimPrefix k prefix, v, True)"
    by auto
next
  show "\<forall>k v. (k, v) \<in> set annotations \<and> HasPrefix k prefix \<longrightarrow>
      (\<exists>annotations'. valid_map annotations' \<and> set annotations' = set annotations \<and>
         FindGCPServiceAccountSecret prefix annotations' = (TrimPrefix k prefix, v, True))"
  proof (intro allI impI, elim conjE)
    fix k v
    assume kv: "(k, v) \<in> set annotations" and p: "HasPrefix k prefix"
    let ?a = "(k, v) # remove1 (k, v) annotations"
    from valid_map_move_front [OF assms(1) kv]
    have "valid_map ?a" and "set ?a = set annotations" by simp_all
    moreover from p have "FindGCPServiceAccountSecret prefix ?a = (TrimPrefix k prefix, v, True)"
      by (rule GCP_head)
    ultimately show "\<exists>annotations'. valid_map annotations' \<and> set annotations' = set annotations \<and>
         FindGCPServiceAccountSecret prefix annotations' = (TrimPrefix k prefix, v, True)"
      by blast
  qed
qed

theorem FindGCPServiceAccountSecret_some_witness:
  "valid_map [(''sa.k1'', ''/m1''), (''sa.k2'', ''/m2'')]
   \<and> (\<exists>k \<in> set (keys [(''sa.k1'', ''/m1''), (''sa.k2'', ''/m2'')]). HasPrefix k ''sa.'')
   \<and> (\<exists>k v. (k, v) \<in> set [(''sa.k1'', ''/m1''), (''sa.k2'', ''/m2'')] \<and> HasPrefix k ''sa.'' \<and>
         FindGCPServiceAccountSecret ''sa.'' [(''sa.k1'', ''/m1''), (''sa.k2'', ''/m2'')]
           = (TrimPrefix k ''sa.'', v, True))
   \<and> (\<exists>annotations'. valid_map annotations'
         \<and> set annotations' = set [(''sa.k1'', ''/m1''), (''sa.k2'', ''/m2'')]
         \<and> FindGCPServiceAccountSecret ''sa.'' annotations' = (''k2'', ''/m2'', True))"
proof -
  let ?a = "[(''sa.k1'', ''/m1''), (''sa.k2'', ''/m2'')]"
  have h1: "valid_map ?a" by (simp add: valid_map_def)
  have h2: "\<exists>k \<in> set (keys ?a). HasPrefix k ''sa.''" by (simp add: keys_def HasPrefix_def)
  note t = FindGCPServiceAccountSecret_some [OF h1 h2]
  have p: "HasPrefix ''sa.k2'' ''sa.''" and q: "TrimPrefix ''sa.k2'' ''sa.'' = ''k2''"
    by (simp_all add: HasPrefix_def TrimPrefix_def)
  have e: "(''sa.k2'', ''/m2'') \<in> set ?a" by simp
  from t have "\<forall>k v. (k, v) \<in> set ?a \<and> HasPrefix k ''sa.'' \<longrightarrow>
      (\<exists>annotations'. valid_map annotations' \<and> set annotations' = set ?a \<and>
         FindGCPServiceAccountSecret ''sa.'' annotations' = (TrimPrefix k ''sa.'', v, True))"
    by (elim conjE)
  with e p have "\<exists>annotations'. valid_map annotations' \<and> set annotations' = set ?a \<and>
         FindGCPServiceAccountSecret ''sa.'' annotations' = (TrimPrefix ''sa.k2'' ''sa.'', ''/m2'', True)"
    by blast
  then have "\<exists>annotations'. valid_map annotations' \<and> set annotations' = set ?a \<and>
         FindGCPServiceAccountSecret ''sa.'' annotations' = (''k2'', ''/m2'', True)"
    by (simp only: q)
  moreover from t have "\<exists>k v. (k, v) \<in> set ?a \<and> HasPrefix k ''sa.'' \<and>
         FindGCPServiceAccountSecret ''sa.'' ?a = (TrimPrefix k ''sa.'', v, True)"
    by (elim conjE)
  ultimately show ?thesis using h1 h2 by (intro conjI)
qed

text \<open>
  \<^bold>\<open>C8\<close>. Each mutation changes only the sequences it appends to. The volume attacher
  leaves every field of the pod and of its spec other than the volumes as it was, and the
  volumes present before are the prefix of the result. The mount attacher leaves the
  variables and every other field of the container as they were and appends one mount. The
  credential wiring leaves every field other than the mounts and the variables as it was
  and appends one entry to each. Nothing is removed, reordered or merged.
\<close>

theorem mutations_frame:
  "Pod.more (AddSecretVolumeToPod secretVolumeName secretName pod) = Pod.more pod
   \<and> PodSpec.more (Spec (AddSecretVolumeToPod secretVolumeName secretName pod))
       = PodSpec.more (Spec pod)
   \<and> (\<exists>volume. Volumes (Spec (AddSecretVolumeToPod secretVolumeName secretName pod))
        = Volumes (Spec pod) @ [volume])
   \<and> take (length (Volumes (Spec pod)))
        (Volumes (Spec (AddSecretVolumeToPod secretVolumeName secretName pod)))
       = Volumes (Spec pod)
   \<and> Container.more (MountSecretToContainer volumeName mountPath container)
       = Container.more container
   \<and> Env (MountSecretToContainer volumeName mountPath container) = Env container
   \<and> (\<exists>m. VolumeMounts (MountSecretToContainer volumeName mountPath container)
        = VolumeMounts container @ [m])
   \<and> Container.more (MountServiceAccountSecretToContainer mountPath container)
       = Container.more container
   \<and> (\<exists>m. VolumeMounts (MountServiceAccountSecretToContainer mountPath container)
        = VolumeMounts container @ [m])
   \<and> (\<exists>e. Env (MountServiceAccountSecretToContainer mountPath container)
        = Env container @ [e])"
  by (simp add: AddSecretVolumeToPod_eq MountSecretToContainer_eq
      MountServiceAccountSecretToContainer_eq)

text \<open>
  \<^bold>\<open>C9\<close>. Stripping the prefix is injective on the keys that bear it, so two distinct keys
  of the mapping never write the same name: the names bound by the multi-secret scanner
  are the suffixes of the keys bearing the prefix, one per key, and their number is the
  number of those keys.
\<close>

theorem FindGeneralSecrets_no_collision:
  assumes "valid_map annotations"
  shows "inj_on (\<lambda>k. TrimPrefix k prefix) {k \<in> set (keys annotations). HasPrefix k prefix}
       \<and> dom (FindGeneralSecrets prefix annotations)
           = (\<lambda>k. TrimPrefix k prefix) ` {k \<in> set (keys annotations). HasPrefix k prefix}
       \<and> card (dom (FindGeneralSecrets prefix annotations))
           = length (filter (\<lambda>k. HasPrefix k prefix) (keys annotations))"
proof -
  let ?K = "{k \<in> set (keys annotations). HasPrefix k prefix}"
  have i: "inj_on (\<lambda>k. TrimPrefix k prefix) ?K" by (rule Trim_inj)
  have d: "dom (FindGeneralSecrets prefix annotations) = (\<lambda>k. TrimPrefix k prefix) ` ?K"
    by (rule General_dom)
  from assms have "distinct (filter (\<lambda>k. HasPrefix k prefix) (keys annotations))"
    by (simp add: valid_map_def keys_def)
  then have "card (set (filter (\<lambda>k. HasPrefix k prefix) (keys annotations)))
      = length (filter (\<lambda>k. HasPrefix k prefix) (keys annotations))"
    by (rule distinct_card)
  moreover have "set (filter (\<lambda>k. HasPrefix k prefix) (keys annotations)) = ?K" by auto
  ultimately have "card ?K = length (filter (\<lambda>k. HasPrefix k prefix) (keys annotations))"
    by simp
  with i d have "card (dom (FindGeneralSecrets prefix annotations))
      = length (filter (\<lambda>k. HasPrefix k prefix) (keys annotations))"
    by (simp add: card_image)
  with i d show ?thesis by blast
qed

theorem FindGeneralSecrets_no_collision_witness:
  "valid_map [(''x/role'', ''driver''), (''s.a'', ''/m1''), (''s.b'', ''/m1'')]
   \<and> card (dom (FindGeneralSecrets ''s.'' [(''x/role'', ''driver''), (''s.a'', ''/m1''), (''s.b'', ''/m1'')])) = 2"
proof -
  have h: "valid_map [(''x/role'', ''driver''), (''s.a'', ''/m1''), (''s.b'', ''/m1'')]"
    by (simp add: valid_map_def)
  from FindGeneralSecrets_no_collision [OF h, of "''s.''"]
  have "card (dom (FindGeneralSecrets ''s.'' [(''x/role'', ''driver''), (''s.a'', ''/m1''), (''s.b'', ''/m1'')]))
      = length (filter (\<lambda>k. HasPrefix k ''s.'')
          (keys [(''x/role'', ''driver''), (''s.a'', ''/m1''), (''s.b'', ''/m1'')]))"
    by (elim conjE)
  also have "\<dots> = 2" by (simp add: keys_def HasPrefix_def)
  finally show ?thesis using h by simp
qed

text \<open>
  \<^bold>\<open>C10\<close>. The credential wiring neither normalises nor checks the base path: the mount
  path is the string given, and the value of the variable is that string followed by \<open>/\<close>
  and \<open>key.json\<close>. The empty base path gives \<open>/key.json\<close>, and \<open>/etc/gcp/\<close> gives
  \<open>/etc/gcp//key.json\<close>.
\<close>

theorem credential_path_literal:
  "(\<exists>m e. VolumeMounts (MountServiceAccountSecretToContainer mountPath container)
          = VolumeMounts container @ [m]
       \<and> MountPath m = mountPath
       \<and> Env (MountServiceAccountSecretToContainer mountPath container) = Env container @ [e]
       \<and> Value e = mountPath @ ''/'' @ ''key.json'')
   \<and> Value (last (Env (MountServiceAccountSecretToContainer [] container))) = ''/key.json''
   \<and> Value (last (Env (MountServiceAccountSecretToContainer ''/etc/gcp/'' container)))
       = ''/etc/gcp//key.json''"
  by (simp add: MountServiceAccountSecretToContainer_eq ServiceAccountJSONKeyFileName_def)

end
